theory Spec2Isabelle
  imports Main "HOL-Library.AList" "HOL-Library.Log_Nat"
begin

section \<open>Python values used by the model\<close>

text \<open>
  The class \<open>Markov\<close> of \<open>src/models/markov.py\<close> is dynamically typed: a token is
  whatever object the caller passes. The code distinguishes three kinds of object:
  a \<open>str\<close> (accepted by \<open>''.join\<close>, hashable), a hashable object that is not a
  \<open>str\<close> (\<open>None\<close>, an \<open>int\<close>), and an object that is not hashable (a \<open>list\<close>).
\<close>

datatype pyobj = Str string | PyNone | PyInt int | PyList "pyobj list"

fun hashable :: "pyobj \<Rightarrow> bool" where
  "hashable (PyList xs) = False"
| "hashable x = True"

fun is_str :: "pyobj \<Rightarrow> bool" where
  "is_str (Str s) = True"
| "is_str x = False"

datatype error = TypeError | ValueError | IndexError | ZeroDivisionError | OverflowError

text \<open>
  The specification names two error kinds. \<open>InvalidArgument\<close> stands for the
  \<open>TypeError\<close> and \<open>ValueError\<close> raised on a bad argument, \<open>ValueMismatch\<close> for the
  \<open>ValueError\<close> raised by \<open>update\<close>.
\<close>

definition InvalidArgument :: "error \<Rightarrow> bool" where
  "InvalidArgument e = (e = TypeError \<or> e = ValueError)"

definition ValueMismatch :: "error \<Rightarrow> bool" where
  "ValueMismatch e = (e = ValueError)"

text \<open>\<open>''.join(xs)\<close>: the concatenation, or \<open>TypeError\<close> (here \<open>None\<close>) when an item is not a \<open>str\<close>.\<close>

fun str_join :: "pyobj list \<Rightarrow> string option" where
  "str_join [] = Some []"
| "str_join (Str s # xs) = (case str_join xs of None \<Rightarrow> None | Some r \<Rightarrow> Some (s @ r))"
| "str_join (x # xs) = None"

subsection \<open>Dictionaries\<close>

text \<open>
  A \<open>dict\<close> keeps its keys in insertion order, and \<open>random_suffix\<close> depends on that
  order, so a dictionary is an association list with distinct keys. \<open>k in d\<close> is
  \<open>map_of d k \<noteq> None\<close>, \<open>d[k]\<close> is \<open>map_of d k\<close>, and \<open>d[k] = v\<close> is \<open>AList.update k v d\<close>:
  an existing key keeps its place, a new key goes to the end.
\<close>

type_synonym ('k, 'v) dict = "('k \<times> 'v) list"

abbreviation dict_set :: "'k \<Rightarrow> 'v \<Rightarrow> ('k, 'v) dict \<Rightarrow> ('k, 'v) dict" where
  "dict_set \<equiv> AList.update"

subsection \<open>Floats\<close>

text \<open>
  A Python \<open>float\<close> is an IEEE 754 binary64 number. \<open>Finite m e\<close> is the number
  \<open>m * 2 ^ e\<close>, kept in the form the format stores: \<open>2 ^ 52 \<le> \<bar>m\<bar> < 2 ^ 53\<close> and
  \<open>- 1074 \<le> e \<le> 971\<close>, or \<open>0 < \<bar>m\<bar> < 2 ^ 52\<close> and \<open>e = - 1074\<close> (a subnormal number), or
  \<open>Finite 0 0\<close> (zero; the two zeros, equal under \<open>==\<close>, are one value here).
\<close>

datatype pyfloat = Finite int int | PosInf | NegInf | NaN

definition float_zero :: pyfloat where
  "float_zero = Finite 0 0"

text \<open>\<open>\<lfloor>log\<^sub>2 (a / b)\<rfloor>\<close> for positive \<open>a\<close> and \<open>b\<close>.\<close>

definition floor_log2 :: "int \<Rightarrow> int \<Rightarrow> int" where
  "floor_log2 a b =
     (let d = bitlen a - bitlen b
      in if b * 2 ^ nat d \<le> a * 2 ^ nat (- d) then d else d - 1)"

text \<open>\<open>a / b\<close> rounded to the nearest integer, a tie to the even one, for \<open>b > 0\<close>.\<close>

definition round_half_even :: "int \<Rightarrow> int \<Rightarrow> int" where
  "round_half_even a b =
     (let q = a div b; r = a mod b
      in if 2 * r < b then q else if b < 2 * r then q + 1
         else if even q then q else q + 1)"

text \<open>
  The binary64 number nearest to \<open>a / b\<close> (round to nearest, ties to even), for
  \<open>a \<ge> 0\<close> and \<open>b > 0\<close>; a result of \<open>2 ^ 1024\<close> or more is infinite.
\<close>

definition binary64 :: "int \<Rightarrow> int \<Rightarrow> pyfloat" where
  "binary64 a b =
     (if a = 0 then float_zero
      else let e = max (floor_log2 a b - 52) (- 1074);
               m = round_half_even (a * 2 ^ nat (- e)) (b * 2 ^ nat e)
           in if m = 0 then float_zero
              else if m = 2 ^ 53 then (if 971 < e + 1 then PosInf else Finite (2 ^ 52) (e + 1))
              else if 971 < e then PosInf else Finite m e)"

fun float_neg :: "pyfloat \<Rightarrow> pyfloat" where
  "float_neg (Finite m e) = Finite (- m) e"
| "float_neg PosInf = NegInf"
| "float_neg NegInf = PosInf"
| "float_neg NaN = NaN"

definition float_of_fraction :: "int \<Rightarrow> int \<Rightarrow> pyfloat" where
  "float_of_fraction a b = (if a < 0 then float_neg (binary64 (- a) b) else binary64 a b)"

text \<open>
  \<open>a / b\<close> on two \<open>int\<close>s (true division): the correctly rounded quotient;
  \<open>ZeroDivisionError\<close> for \<open>b = 0\<close>, \<open>OverflowError\<close> when the quotient is too large for
  a \<open>float\<close>.
\<close>

definition truediv :: "int \<Rightarrow> int \<Rightarrow> error + pyfloat" where
  "truediv a b =
     (if b = 0 then Inl ZeroDivisionError
      else case float_of_fraction (a * sgn b) \<bar>b\<bar> of
             Finite m e \<Rightarrow> Inr (Finite m e)
           | _ \<Rightarrow> Inl OverflowError)"

text \<open>\<open>x + y\<close> on two \<open>float\<close>s.\<close>

fun float_add :: "pyfloat \<Rightarrow> pyfloat \<Rightarrow> pyfloat" where
  "float_add (Finite m1 e1) (Finite m2 e2) =
     (let e = min e1 e2;
          s = m1 * 2 ^ nat (e1 - e) + m2 * 2 ^ nat (e2 - e)
      in float_of_fraction (s * 2 ^ nat e) (2 ^ nat (- e)))"
| "float_add NaN y = NaN"
| "float_add x NaN = NaN"
| "float_add PosInf NegInf = NaN"
| "float_add NegInf PosInf = NaN"
| "float_add PosInf y = PosInf"
| "float_add NegInf y = NegInf"
| "float_add x PosInf = PosInf"
| "float_add x NegInf = NegInf"

text \<open>\<open>x >= y\<close> on two \<open>float\<close>s.\<close>

fun float_ge :: "pyfloat \<Rightarrow> pyfloat \<Rightarrow> bool" where
  "float_ge (Finite m1 e1) (Finite m2 e2) =
     (let e = min e1 e2 in m2 * 2 ^ nat (e2 - e) \<le> m1 * 2 ^ nat (e1 - e))"
| "float_ge NaN y = False"
| "float_ge x NaN = False"
| "float_ge PosInf y = True"
| "float_ge x NegInf = True"
| "float_ge NegInf y = False"
| "float_ge x PosInf = False"

section \<open>The model\<close>

text \<open>
  \<open>self.n\<close> and \<open>self.graph\<close>. The graph maps a prefix key (the joined prefix) to a
  dictionary from suffix token to count.
\<close>

record markov =
  n :: int
  graph :: "(string, (pyobj, int) dict) dict"

text \<open>\<open>Markov.__init__\<close>.\<close>

fun Markov_init :: "pyobj \<Rightarrow> error + markov" where
  "Markov_init (PyInt k) =
     (if k < 2 then Inl ValueError else Inr \<lparr>n = k, graph = []\<rparr>)"
| "Markov_init x = Inl TypeError"

text \<open>
  \<open>Markov.add_ngram\<close>. The result is the exception raised, if any, and the model as
  the call leaves it.
\<close>

definition add_ngram :: "markov \<Rightarrow> pyobj list \<Rightarrow> error option \<times> markov" where
  "add_ngram self ngram =
     (if int (length ngram) \<noteq> n self then (Some ValueError, self)
      else (case str_join (butlast ngram) of
        None \<Rightarrow> (Some TypeError, self)
      | Some source \<Rightarrow>
          (if ngram = [] then (Some IndexError, self)
           else (let destination = last ngram
            in (case map_of (graph self) source of
               None \<Rightarrow>
                 (if \<not> hashable destination then (Some TypeError, self)
                  else (None, self\<lparr>graph := dict_set source [(destination, 1)] (graph self)\<rparr>))
             | Some suffixes \<Rightarrow>
                 (if \<not> hashable destination then (Some TypeError, self)
                  else (case map_of suffixes destination of
                     None \<Rightarrow>
                       (None, self\<lparr>graph :=
                          dict_set source (dict_set destination 1 suffixes) (graph self)\<rparr>)
                   | Some c \<Rightarrow>
                       (None, self\<lparr>graph :=
                          dict_set source (dict_set destination (c + 1) suffixes)
                            (graph self)\<rparr>))))))))"

text \<open>
  \<open>Markov.get_suffixes\<close>. The loop fills \<open>mapping\<close> from the items of
  \<open>self.graph[prefix_string]\<close>.
\<close>

fun get_suffixes_loop ::
  "int \<Rightarrow> (pyobj, int) dict \<Rightarrow> (pyobj, pyfloat) dict \<Rightarrow> error + (pyobj, pyfloat) dict" where
  "get_suffixes_loop total_weight [] mapping = Inr mapping"
| "get_suffixes_loop total_weight ((suffix, weight) # items) mapping =
     (case truediv weight total_weight of
        Inl e \<Rightarrow> Inl e
      | Inr p \<Rightarrow> get_suffixes_loop total_weight items (dict_set suffix p mapping))"

definition get_suffixes :: "markov \<Rightarrow> pyobj list \<Rightarrow> error + (pyobj, pyfloat) dict" where
  "get_suffixes self prefix =
     (if int (length prefix) \<noteq> n self - 1 then Inl ValueError
      else (case str_join prefix of
        None \<Rightarrow> Inl TypeError
      | Some prefix_string \<Rightarrow>
          (case map_of (graph self) prefix_string of
             None \<Rightarrow> Inr []
           | Some suffixes \<Rightarrow>
               get_suffixes_loop (sum_list (map snd suffixes)) suffixes [])))"

text \<open>\<open>Markov.get_ngrams\<close>. A key of the result is the tuple \<open>prefix + (suffix,)\<close>.\<close>

fun get_ngrams_loop ::
  "pyobj list \<Rightarrow> (pyobj, pyfloat) dict \<Rightarrow> (pyobj list, pyfloat) dict
     \<Rightarrow> (pyobj list, pyfloat) dict" where
  "get_ngrams_loop prefix [] ngram_mapping = ngram_mapping"
| "get_ngrams_loop prefix ((suffix, probability) # items) ngram_mapping =
     get_ngrams_loop prefix items (dict_set (prefix @ [suffix]) probability ngram_mapping)"

definition get_ngrams :: "markov \<Rightarrow> pyobj list \<Rightarrow> error + (pyobj list, pyfloat) dict" where
  "get_ngrams self prefix =
     (case get_suffixes self prefix of
        Inl e \<Rightarrow> Inl e
      | Inr suffix_mapping \<Rightarrow> Inr (get_ngrams_loop prefix suffix_mapping []))"

text \<open>
  \<open>Markov.update\<close>. The inner loop runs over the items of \<open>suffixes\<close>, which is
  \<open>markov_model.graph[prefix]\<close>: the weight of an item is
  \<open>markov_model.graph[prefix][suffix]\<close>.
\<close>

fun update_suffixes :: "(pyobj, int) dict \<Rightarrow> (pyobj, int) dict \<Rightarrow> (pyobj, int) dict" where
  "update_suffixes mine [] = mine"
| "update_suffixes mine ((suffix, weight) # items) =
     (case map_of mine suffix of
        None \<Rightarrow> update_suffixes (dict_set suffix weight mine) items
      | Some c \<Rightarrow> update_suffixes (dict_set suffix (c + weight) mine) items)"

fun update_loop ::
  "(string, (pyobj, int) dict) dict \<Rightarrow> (string, (pyobj, int) dict) dict
     \<Rightarrow> (string, (pyobj, int) dict) dict" where
  "update_loop g [] = g"
| "update_loop g ((prefix, suffixes) # items) =
     (case map_of g prefix of
        None \<Rightarrow> update_loop (dict_set prefix suffixes g) items
      | Some mine \<Rightarrow> update_loop (dict_set prefix (update_suffixes mine suffixes) g) items)"

definition update :: "markov \<Rightarrow> markov \<Rightarrow> error option \<times> markov" where
  "update self markov_model =
     (if n self \<noteq> n markov_model then (Some ValueError, self)
      else (None, self\<lparr>graph := update_loop (graph self) (graph markov_model)\<rparr>))"

text \<open>
  \<open>Markov.random_suffix\<close>. The argument \<open>threshhold\<close> is the number that
  \<open>random.random()\<close> returns in this call. A loop that ends without \<open>return\<close> makes
  the method return \<open>None\<close>; \<open>upto_mass\<close> is the variable \<open>upto\<close>.
\<close>

fun random_suffix_loop :: "pyfloat \<Rightarrow> pyfloat \<Rightarrow> (pyobj, pyfloat) dict \<Rightarrow> pyobj" where
  "random_suffix_loop threshhold upto_mass [] = PyNone"
| "random_suffix_loop threshhold upto_mass ((suffix, probability) # items) =
     (if float_ge (float_add upto_mass probability) threshhold then suffix
      else random_suffix_loop threshhold (float_add upto_mass probability) items)"

definition random_suffix :: "markov \<Rightarrow> pyfloat \<Rightarrow> pyobj list \<Rightarrow> error + pyobj" where
  "random_suffix self threshhold prefix =
     (case get_suffixes self prefix of
        Inl e \<Rightarrow> Inl e
      | Inr mapping \<Rightarrow> Inr (random_suffix_loop threshhold float_zero mapping))"

text \<open>\<open>Markov.random_ngram\<close>.\<close>

definition random_ngram :: "markov \<Rightarrow> pyfloat \<Rightarrow> pyobj list \<Rightarrow> error + pyobj list" where
  "random_ngram self threshhold prefix =
     (case random_suffix self threshhold prefix of
        Inl e \<Rightarrow> Inl e
      | Inr suffix \<Rightarrow> Inr (prefix @ [suffix]))"

text \<open>
  \<open>Markov.random_sequence\<close>. \<open>deque_append maxlen q x\<close> is \<open>q.append(x)\<close> on a
  \<open>deque\<close> of bounded length: a full deque drops its oldest item.
\<close>

definition deque_append :: "int \<Rightarrow> 'a list \<Rightarrow> 'a \<Rightarrow> 'a list" where
  "deque_append maxlen q x =
     (if maxlen = 0 then []
      else if int (length q) = maxlen then tl q @ [x]
      else q @ [x])"

text \<open>
  One pass through the body of \<open>while True\<close>, from the state \<open>(prefix_queue, sequence)\<close>:
  the method returns, raises, or goes round again.
\<close>

datatype walk = Returned "pyobj list" | Raised error | Running "pyobj list" "pyobj list"

definition walk_step :: "markov \<Rightarrow> int \<Rightarrow> pyfloat \<Rightarrow> pyobj list \<Rightarrow> pyobj list \<Rightarrow> walk" where
  "walk_step self prefix_length threshhold prefix_queue sequence =
     (case random_suffix self threshhold prefix_queue of
        Inl e \<Rightarrow> Raised e
      | Inr suffix \<Rightarrow>
          if suffix = Str [] then Returned (sequence @ [suffix])
          else Running (deque_append prefix_length prefix_queue suffix) (sequence @ [suffix]))"

text \<open>
  The loop. \<open>draws i\<close> is the number that the \<open>i\<close>-th call of \<open>random.random()\<close>
  returns; the loop may run forever, and then the result is \<open>None\<close>. The result of a
  run that ends is what the method returns or raises, with the model as the run
  leaves it.
\<close>

partial_function (option) random_sequence_loop ::
  "markov \<Rightarrow> int \<Rightarrow> (nat \<Rightarrow> pyfloat) \<Rightarrow> nat \<Rightarrow> pyobj list \<Rightarrow> pyobj list
     \<Rightarrow> ((error + pyobj list) \<times> markov) option" where
  "random_sequence_loop self prefix_length draws i prefix_queue sequence =
     (case walk_step self prefix_length (draws i) prefix_queue sequence of
        Returned out \<Rightarrow> Some (Inr out, self)
      | Raised e \<Rightarrow> Some (Inl e, self)
      | Running prefix_queue' sequence' \<Rightarrow>
          random_sequence_loop self prefix_length draws (Suc i) prefix_queue' sequence')"

definition random_sequence ::
  "markov \<Rightarrow> (nat \<Rightarrow> pyfloat) \<Rightarrow> pyobj list \<Rightarrow> ((error + pyobj list) \<times> markov) option" where
  "random_sequence self draws prefix =
     (let prefix_length = n self - 1
      in if int (length prefix) \<noteq> prefix_length then Some (Inl ValueError, self)
         else random_sequence_loop self prefix_length draws 0 prefix prefix)"

section \<open>Notions used to state the properties\<close>

text \<open>\<open>stored g k s\<close> is the count \<open>g[k][s]\<close>, if the graph has that entry.\<close>

definition stored :: "(string, (pyobj, int) dict) dict \<Rightarrow> string \<Rightarrow> pyobj \<Rightarrow> int option" where
  "stored g k s = (case map_of g k of None \<Rightarrow> None | Some d \<Rightarrow> map_of d s)"

definition count_of :: "(string, (pyobj, int) dict) dict \<Rightarrow> string \<Rightarrow> pyobj \<Rightarrow> int" where
  "count_of g k s = (case stored g k s of None \<Rightarrow> 0 | Some c \<Rightarrow> c)"

text \<open>
  An association list is a dictionary when its keys are distinct. The graph of a
  model is well formed when it is a dictionary of dictionaries and every count is at
  least 1.
\<close>

definition dict_ok :: "('k, 'v) dict \<Rightarrow> bool" where
  "dict_ok d = distinct (map fst d)"

definition counts_ok :: "(pyobj, int) dict \<Rightarrow> bool" where
  "counts_ok d = (dict_ok d \<and> list_all (\<lambda>(s, c). 1 \<le> c) d)"

definition graph_ok :: "(string, (pyobj, int) dict) dict \<Rightarrow> bool" where
  "graph_ok g = (dict_ok g \<and> list_all (\<lambda>(k, d). counts_ok d) g)"

text \<open>\<open>add_ngram\<close> called on each n-gram of a list in turn.\<close>

definition add_all :: "markov \<Rightarrow> pyobj list list \<Rightarrow> markov" where
  "add_all self ngrams = foldl (\<lambda>m ngram. snd (add_ngram m ngram)) self ngrams"

text \<open>
  The models that construction followed by calls of \<open>add_ngram\<close> and \<open>update\<close> can
  produce (a call that raises included).
\<close>

inductive reachable :: "markov \<Rightarrow> bool" where
  constructed: "Markov_init x = Inr m \<Longrightarrow> reachable m"
| added: "reachable m \<Longrightarrow> reachable (snd (add_ngram m ngram))"
| updated: "reachable m \<Longrightarrow> reachable other \<Longrightarrow> reachable (snd (update m other))"

section \<open>Dictionaries and floats\<close>

lemma dict_set_new: "k \<notin> fst ` set d \<Longrightarrow> dict_set k v d = d @ [(k, v)]"
  by (induction d) auto

lemma dict_ok_dict_set: "dict_ok d \<Longrightarrow> dict_ok (dict_set k v d)"
  by (simp add: dict_ok_def distinct_update)

lemma stored_dict_set:
  "stored (dict_set k d g) k' s = (if k' = k then map_of d s else stored g k' s)"
  by (simp add: stored_def update_conv')

lemma bitlen_mono: "a \<le> b \<Longrightarrow> bitlen a \<le> bitlen b"
  by (simp add: bitlen_def floorlog_mono)

lemma floor_log2_le_0: "a \<le> b \<Longrightarrow> floor_log2 a b \<le> 0"
  using bitlen_mono [of a b] by (simp add: floor_log2_def Let_def)

lemma binary64_finite:
  assumes "floor_log2 a b \<le> 0"
  shows "\<exists>m e. binary64 a b = Finite m e"
proof -
  define e where "e = max (floor_log2 a b - 52) (- 1074)"
  have e: "\<not> 971 < e + 1" "\<not> 971 < e"
    using assms by (simp_all add: e_def)
  show ?thesis
    unfolding binary64_def float_zero_def Let_def e_def [symmetric]
    using e by (simp del: max_less_iff_conj)
qed

text \<open>A count divided by a total that is not smaller is a finite float: no exception.\<close>

lemma truediv_finite:
  assumes "1 \<le> c" "c \<le> t"
  shows "\<exists>m e. truediv c t = Inr (Finite m e)"
proof -
  from assms have t: "t \<noteq> 0" "sgn t = 1" "\<bar>t\<bar> = t" "\<not> c < 0" by auto
  obtain m e where "binary64 c t = Finite m e"
    using binary64_finite [OF floor_log2_le_0 [OF assms(2)]] by blast
  then show ?thesis
    by (simp add: truediv_def float_of_fraction_def t)
qed

lemmas float_eval =
  truediv_def float_of_fraction_def binary64_def floor_log2_def round_half_even_def
  Let_def compute_bitlen float_zero_def

section \<open>Ingestion\<close>

lemma add_ngram_stored:
  assumes "int (length ngram) = n self" "ngram \<noteq> []"
    "str_join (butlast ngram) = Some source" "hashable (last ngram)"
  shows "\<exists>m'. add_ngram self ngram = (None, m') \<and> n m' = n self \<and>
     (\<forall>k s. stored (graph m') k s =
        (if k = source \<and> s = last ngram
         then Some (case stored (graph self) source (last ngram) of None \<Rightarrow> 1 | Some c \<Rightarrow> c + 1)
         else stored (graph self) k s))"
  using assms
  by (auto simp: add_ngram_def Let_def stored_dict_set update_conv' stored_def
      split: option.splits)

text \<open>
  C2. \<open>add_ngram\<close> raises \<open>ValueError\<close>, an \<open>InvalidArgument\<close>, and leaves the model
  as it is when the number of tokens is not \<open>n\<close>. On \<open>n\<close> tokens, the first \<open>n - 1\<close>
  of them strings that join to \<open>source\<close> and the last one hashable, it returns
  normally, and the graph it leaves differs from the one before in the entry
  \<open>graph[source][destination]\<close> alone: that count is 1 when the entry was absent and
  one more than before otherwise.
\<close>

theorem add_ngram_increments:
  "(int (length ngram) \<noteq> n self \<longrightarrow>
      (\<exists>e. add_ngram self ngram = (Some e, self) \<and> InvalidArgument e)) \<and>
   (int (length ngram) = n self \<and> ngram \<noteq> [] \<and>
    str_join (butlast ngram) = Some source \<and> hashable (last ngram) \<longrightarrow>
      (\<exists>m'. add_ngram self ngram = (None, m') \<and> n m' = n self \<and>
         (\<forall>k s. stored (graph m') k s =
            (if k = source \<and> s = last ngram
             then Some (case stored (graph self) source (last ngram) of
                          None \<Rightarrow> 1 | Some c \<Rightarrow> c + 1)
             else stored (graph self) k s))))"
proof (intro conjI impI)
  assume "int (length ngram) \<noteq> n self"
  then show "\<exists>e. add_ngram self ngram = (Some e, self) \<and> InvalidArgument e"
    by (simp add: add_ngram_def InvalidArgument_def)
next
  assume "int (length ngram) = n self \<and> ngram \<noteq> [] \<and>
    str_join (butlast ngram) = Some source \<and> hashable (last ngram)"
  then show "\<exists>m'. add_ngram self ngram = (None, m') \<and> n m' = n self \<and>
         (\<forall>k s. stored (graph m') k s =
            (if k = source \<and> s = last ngram
             then Some (case stored (graph self) source (last ngram) of
                          None \<Rightarrow> 1 | Some c \<Rightarrow> c + 1)
             else stored (graph self) k s))"
    using add_ngram_stored [of ngram self source] by blast
qed

theorem add_ngram_increments_witness:
  "int (length [Str ''the'', Str ''cat'', Str ''sat'']) \<noteq> n \<lparr>n = 2, graph = [(''the'', [(Str ''cat'', 1)])]\<rparr> \<and>
   add_ngram \<lparr>n = 2, graph = [(''the'', [(Str ''cat'', 1)])]\<rparr> [Str ''the'', Str ''cat'', Str ''sat''] =
     (Some ValueError, \<lparr>n = 2, graph = [(''the'', [(Str ''cat'', 1)])]\<rparr>) \<and>
   int (length [Str ''the'', Str ''cat'']) = n \<lparr>n = 2, graph = [(''the'', [(Str ''cat'', 1)])]\<rparr> \<and>
   str_join (butlast [Str ''the'', Str ''cat'']) = Some ''the'' \<and>
   hashable (last [Str ''the'', Str ''cat'']) \<and>
   (\<exists>m'. add_ngram \<lparr>n = 2, graph = [(''the'', [(Str ''cat'', 1)])]\<rparr> [Str ''the'', Str ''cat''] = (None, m') \<and>
      stored (graph m') ''the'' (Str ''cat'') = Some 2 \<and>
      stored (graph m') ''the'' (Str ''dog'') = None)"
  using add_ngram_increments [of "[Str ''the'', Str ''cat'', Str ''sat'']"
      "\<lparr>n = 2, graph = [(''the'', [(Str ''cat'', 1)])]\<rparr>" "''the''"]
    add_ngram_increments [of "[Str ''the'', Str ''cat'']"
      "\<lparr>n = 2, graph = [(''the'', [(Str ''cat'', 1)])]\<rparr>" "''the''"]
  by (simp add: stored_def add_ngram_def)

section \<open>Probability view\<close>

lemma le_sum_list:
  "list_all (\<lambda>(s, c). (1::int) \<le> c) d \<Longrightarrow> (s, c) \<in> set d \<Longrightarrow> c \<le> sum_list (map snd d)"
proof (induction d)
  case Nil
  then show ?case by simp
next
  case (Cons x d)
  have "0 \<le> sum_list (map snd d)"
    using Cons.prems(1) by (intro sum_list_nonneg) (auto simp: list_all_iff)
  then show ?case using Cons by (auto simp: list_all_iff)
qed

lemma get_suffixes_loop_ok:
  "distinct (map fst mapping @ map fst items) \<Longrightarrow>
   list_all (\<lambda>(s, c). 1 \<le> c \<and> c \<le> t) items \<Longrightarrow>
   \<exists>new. get_suffixes_loop t items mapping = Inr (mapping @ new) \<and>
     list_all2 (\<lambda>(s, c) (s', p). s' = s \<and> truediv c t = Inr p) items new"
proof (induction items arbitrary: mapping)
  case Nil
  then show ?case by simp
next
  case (Cons x items)
  obtain s c where x: "x = (s, c)" by (cases x)
  from Cons.prems x obtain m e where p: "truediv c t = Inr (Finite m e)"
    using truediv_finite [of c t] by auto
  have new: "dict_set s (Finite m e) mapping = mapping @ [(s, Finite m e)]"
    using Cons.prems(1) x by (intro dict_set_new) auto
  have "distinct (map fst (mapping @ [(s, Finite m e)]) @ map fst items)"
    using Cons.prems(1) x by auto
  moreover have "list_all (\<lambda>(s, c). 1 \<le> c \<and> c \<le> t) items"
    using Cons.prems(2) by simp
  ultimately obtain new' where
    "get_suffixes_loop t items (mapping @ [(s, Finite m e)]) = Inr ((mapping @ [(s, Finite m e)]) @ new')"
    "list_all2 (\<lambda>(s, c) (s', p). s' = s \<and> truediv c t = Inr p) items new'"
    using Cons.IH by blast
  then show ?case
    using x p new by (intro exI [of _ "(s, Finite m e) # new'"]) simp
qed

lemma graph_ok_lookup: "graph_ok g \<Longrightarrow> map_of g k = Some d \<Longrightarrow> counts_ok d"
  by (auto simp: graph_ok_def list_all_iff dest: map_of_SomeD)

lemma get_suffixes_seen:
  assumes "counts_ok suffixes" "int (length prefix) = n self - 1"
    "str_join prefix = Some key" "map_of (graph self) key = Some suffixes"
  shows "\<exists>mapping. get_suffixes self prefix = Inr mapping \<and>
     list_all2 (\<lambda>(s, c) (s', p). s' = s \<and> truediv c (sum_list (map snd suffixes)) = Inr p)
       suffixes mapping"
proof -
  have "list_all (\<lambda>(s, c). 1 \<le> c \<and> c \<le> sum_list (map snd suffixes)) suffixes"
    using assms(1) le_sum_list [of suffixes]
    by (auto simp: counts_ok_def list_all_iff)
  moreover have "distinct (map fst ([] :: (pyobj, pyfloat) dict) @ map fst suffixes)"
    using assms(1) by (simp add: counts_ok_def dict_ok_def)
  ultimately show ?thesis
    using get_suffixes_loop_ok [of "[]" suffixes "sum_list (map snd suffixes)"] assms(2-4)
    by (simp add: get_suffixes_def)
qed

text \<open>
  C1. In a model with a well-formed graph, for a prefix of \<open>n - 1\<close> strings that join
  to \<open>key\<close>: \<open>get_suffixes\<close> returns the empty mapping when the graph has no entry
  for \<open>key\<close>; otherwise it returns a mapping with the suffixes recorded under
  \<open>key\<close>, in their order, each with the float \<open>count / total\<close>, where \<open>total\<close> is the sum
  of the counts recorded under \<open>key\<close>. For \<open>n = 2\<close>, after \<open>add_ngram('the', 'cat')\<close>
  once and \<open>add_ngram('the', 'dog')\<close> twice, \<open>get_suffixes('the')\<close> is
  \<open>{'cat': 1 / 3, 'dog': 2 / 3}\<close>.
\<close>

theorem get_suffixes_probabilities:
  assumes "graph_ok (graph self)" "int (length prefix) = n self - 1"
    "str_join prefix = Some key"
  shows "(case map_of (graph self) key of
            None \<Rightarrow> get_suffixes self prefix = Inr []
          | Some suffixes \<Rightarrow>
              (\<exists>mapping. get_suffixes self prefix = Inr mapping \<and>
                 list_all2 (\<lambda>(s, c) (s', p).
                     s' = s \<and> truediv c (sum_list (map snd suffixes)) = Inr p)
                   suffixes mapping)) \<and>
         (\<exists>m0 p q. Markov_init (PyInt 2) = Inr m0 \<and>
            truediv 1 3 = Inr p \<and> truediv 2 3 = Inr q \<and>
            get_suffixes
              (add_all m0 [[Str ''the'', Str ''cat''], [Str ''the'', Str ''dog''],
                           [Str ''the'', Str ''dog'']])
              [Str ''the''] = Inr [(Str ''cat'', p), (Str ''dog'', q)])"
proof (intro conjI)
  show "case map_of (graph self) key of
            None \<Rightarrow> get_suffixes self prefix = Inr []
          | Some suffixes \<Rightarrow>
              (\<exists>mapping. get_suffixes self prefix = Inr mapping \<and>
                 list_all2 (\<lambda>(s, c) (s', p).
                     s' = s \<and> truediv c (sum_list (map snd suffixes)) = Inr p)
                   suffixes mapping)"
  proof (cases "map_of (graph self) key")
    case None
    then show ?thesis using assms(2,3) by (simp add: get_suffixes_def)
  next
    case (Some suffixes)
    then show ?thesis
      using get_suffixes_seen [OF graph_ok_lookup [OF assms(1) Some] assms(2,3) Some]
      by simp
  qed
next
  have "add_all \<lparr>n = 2, graph = []\<rparr>
      [[Str ''the'', Str ''cat''], [Str ''the'', Str ''dog''], [Str ''the'', Str ''dog'']] =
    \<lparr>n = 2, graph = [(''the'', [(Str ''cat'', 1), (Str ''dog'', 2)])]\<rparr>"
    by (simp add: add_all_def add_ngram_def)
  moreover have "truediv 1 3 = Inr (Finite 6004799503160661 (- 54))"
    "truediv 2 3 = Inr (Finite 6004799503160661 (- 53))"
    by (simp_all add: float_eval)
  ultimately show "\<exists>m0 p q. Markov_init (PyInt 2) = Inr m0 \<and>
            truediv 1 3 = Inr p \<and> truediv 2 3 = Inr q \<and>
            get_suffixes
              (add_all m0 [[Str ''the'', Str ''cat''], [Str ''the'', Str ''dog''],
                           [Str ''the'', Str ''dog'']])
              [Str ''the''] = Inr [(Str ''cat'', p), (Str ''dog'', q)]"
    by (simp add: get_suffixes_def)
qed

theorem get_suffixes_probabilities_witness:
  "graph_ok (graph \<lparr>n = 3, graph = [(''ab'', [(Str ''c'', 2), (Str ''d'', 1)])]\<rparr>) \<and>
   int (length [Str ''a'', Str ''b'']) = n \<lparr>n = 3, graph = [(''ab'', [(Str ''c'', 2), (Str ''d'', 1)])]\<rparr> - 1 \<and>
   str_join [Str ''a'', Str ''b''] = Some ''ab'' \<and>
   str_join [Str ''b'', Str ''a''] = Some ''ba'' \<and>
   get_suffixes \<lparr>n = 3, graph = [(''ab'', [(Str ''c'', 2), (Str ''d'', 1)])]\<rparr> [Str ''b'', Str ''a''] = Inr [] \<and>
   (\<exists>mapping. get_suffixes \<lparr>n = 3, graph = [(''ab'', [(Str ''c'', 2), (Str ''d'', 1)])]\<rparr> [Str ''a'', Str ''b''] = Inr mapping \<and>
      list_all2 (\<lambda>(s, c) (s', p). s' = s \<and> truediv c 3 = Inr p) [(Str ''c'', 2), (Str ''d'', 1)] mapping)"
  using get_suffixes_probabilities [of "\<lparr>n = 3, graph = [(''ab'', [(Str ''c'', 2), (Str ''d'', 1)])]\<rparr>"
      "[Str ''a'', Str ''b'']" "''ab''"]
    get_suffixes_probabilities [of "\<lparr>n = 3, graph = [(''ab'', [(Str ''c'', 2), (Str ''d'', 1)])]\<rparr>"
      "[Str ''b'', Str ''a'']" "''ba''"]
  by (simp add: graph_ok_def counts_ok_def dict_ok_def)

lemma get_suffixes_loop_dict_ok:
  "get_suffixes_loop t items mapping = Inr result \<Longrightarrow> dict_ok mapping \<Longrightarrow> dict_ok result"
proof (induction items arbitrary: mapping)
  case Nil
  then show ?case by simp
next
  case (Cons x items)
  obtain s c where x: "x = (s, c)" by (cases x)
  show ?case
  proof (cases "truediv c t")
    case (Inl e)
    then show ?thesis using Cons.prems(1) x by simp
  next
    case (Inr p)
    then have "get_suffixes_loop t items (dict_set s p mapping) = Inr result"
      using Cons.prems(1) x by simp
    then show ?thesis
      by (rule Cons.IH) (rule dict_ok_dict_set [OF Cons.prems(2)])
  qed
qed

lemma get_suffixes_dict_ok:
  assumes "get_suffixes self prefix = Inr mapping"
  shows "dict_ok mapping"
proof -
  have nil: "dict_ok ([] :: (pyobj, pyfloat) dict)"
    by (simp add: dict_ok_def)
  from assms obtain key where key: "str_join prefix = Some key"
    by (cases "str_join prefix") (simp_all add: get_suffixes_def split: if_splits)
  show ?thesis
  proof (cases "map_of (graph self) key")
    case None
    then have "mapping = []"
      using assms key by (simp add: get_suffixes_def split: if_splits)
    then show ?thesis using nil by simp
  next
    case (Some suffixes)
    then have "get_suffixes_loop (sum_list (map snd suffixes)) suffixes [] = Inr mapping"
      using assms key by (simp add: get_suffixes_def split: if_splits)
    then show ?thesis by (rule get_suffixes_loop_dict_ok) (rule nil)
  qed
qed

lemma get_ngrams_loop_map:
  "distinct (map fst ngram_mapping @ map (\<lambda>x. prefix @ [fst x]) items) \<Longrightarrow>
   get_ngrams_loop prefix items ngram_mapping =
     ngram_mapping @ map (\<lambda>(s, p). (prefix @ [s], p)) items"
proof (induction items arbitrary: ngram_mapping)
  case Nil
  then show ?case by simp
next
  case (Cons x items)
  obtain s p where x: "x = (s, p)" by (cases x)
  have new: "dict_set (prefix @ [s]) p ngram_mapping = ngram_mapping @ [(prefix @ [s], p)]"
    using Cons.prems x by (intro dict_set_new) auto
  have "distinct (map fst (ngram_mapping @ [(prefix @ [s], p)]) @
      map (\<lambda>x. prefix @ [fst x]) items)"
    using Cons.prems x by auto
  then show ?case
    using Cons.IH [of "ngram_mapping @ [(prefix @ [s], p)]"] x new by simp
qed

lemma get_ngrams_map:
  assumes "get_suffixes self prefix = Inr mapping"
  shows "get_ngrams self prefix = Inr (map (\<lambda>(s, p). (prefix @ [s], p)) mapping)"
proof -
  have "distinct (map fst mapping)"
    using get_suffixes_dict_ok [OF assms] by (simp add: dict_ok_def)
  then have "distinct (map (\<lambda>x. prefix @ [fst x]) mapping)"
    by (simp add: distinct_map inj_on_def)
  then have "distinct (map fst ([] :: (pyobj list, pyfloat) dict) @
      map (\<lambda>x. prefix @ [fst x]) mapping)"
    by simp
  then show ?thesis
    using get_ngrams_loop_map [of "[]" prefix mapping] assms by (simp add: get_ngrams_def)
qed

text \<open>
  C7. Whenever \<open>get_suffixes\<close> returns a mapping for a prefix, \<open>get_ngrams\<close> returns a
  mapping too; its keys are exactly the tuples \<open>prefix + (s,)\<close> for the keys \<open>s\<close> of the
  suffix mapping, and the value under \<open>prefix + (s,)\<close> is the value under \<open>s\<close> in the
  suffix mapping.
\<close>

theorem get_ngrams_round_trip:
  assumes "get_suffixes self prefix = Inr mapping"
  shows "\<exists>ngram_mapping. get_ngrams self prefix = Inr ngram_mapping \<and>
     dict_ok ngram_mapping \<and>
     fst ` set ngram_mapping = {prefix @ [s] | s. s \<in> fst ` set mapping} \<and>
     (\<forall>s. map_of ngram_mapping (prefix @ [s]) = map_of mapping s)"
proof -
  let ?ng = "map (\<lambda>(s, p). (prefix @ [s], p)) mapping"
  have d: "distinct (map fst mapping)"
    using get_suffixes_dict_ok [OF assms] by (simp add: dict_ok_def)
  have keys: "map fst ?ng = map (\<lambda>x. prefix @ [fst x]) mapping"
    by (simp add: case_prod_beta)
  have 1: "dict_ok ?ng"
    unfolding dict_ok_def keys using d by (simp add: distinct_map inj_on_def)
  have 2: "fst ` set ?ng = {prefix @ [s] | s. s \<in> fst ` set mapping}"
    by force
  have 3: "\<forall>s. map_of ?ng (prefix @ [s]) = map_of mapping s"
    by (induction mapping) auto
  show ?thesis
    using get_ngrams_map [OF assms] 1 2 3 by (intro exI [of _ ?ng] conjI)
qed

theorem get_ngrams_round_trip_witness:
  "get_suffixes \<lparr>n = 3, graph = [(''ab'', [(Str ''c'', 2), (Str ''d'', 1)])]\<rparr> [Str ''a'', Str ''b''] =
     Inr [(Str ''c'', Finite 6004799503160661 (- 53)), (Str ''d'', Finite 6004799503160661 (- 54))] \<and>
   (\<exists>ngram_mapping.
      get_ngrams \<lparr>n = 3, graph = [(''ab'', [(Str ''c'', 2), (Str ''d'', 1)])]\<rparr> [Str ''a'', Str ''b''] =
        Inr ngram_mapping \<and>
      map_of ngram_mapping [Str ''a'', Str ''b'', Str ''c''] = Some (Finite 6004799503160661 (- 53)) \<and>
      map_of ngram_mapping [Str ''a'', Str ''b'', Str ''e''] = None)"
proof -
  have g: "get_suffixes \<lparr>n = 3, graph = [(''ab'', [(Str ''c'', 2), (Str ''d'', 1)])]\<rparr>
      [Str ''a'', Str ''b''] =
     Inr [(Str ''c'', Finite 6004799503160661 (- 53)), (Str ''d'', Finite 6004799503160661 (- 54))]"
    by (simp add: get_suffixes_def float_eval)
  obtain ngram_mapping where
    ng: "get_ngrams \<lparr>n = 3, graph = [(''ab'', [(Str ''c'', 2), (Str ''d'', 1)])]\<rparr>
        [Str ''a'', Str ''b''] = Inr ngram_mapping"
    and v: "\<forall>s. map_of ngram_mapping ([Str ''a'', Str ''b''] @ [s]) =
        map_of [(Str ''c'', Finite 6004799503160661 (- 53)),
                (Str ''d'', Finite 6004799503160661 (- 54))] s"
    using get_ngrams_round_trip [OF g] by auto
  have c: "map_of ngram_mapping [Str ''a'', Str ''b'', Str ''c''] =
      Some (Finite 6004799503160661 (- 53))"
    using v [rule_format, of "Str ''c''"] by simp
  have e: "map_of ngram_mapping [Str ''a'', Str ''b'', Str ''e''] = None"
    using v [rule_format, of "Str ''e''"] by simp
  show ?thesis
    using g ng c e by (intro conjI exI [of _ ngram_mapping])
qed

section \<open>Invariants of ingestion\<close>

lemma set_dict_set: "set (dict_set k v d) \<subseteq> insert (k, v) (set d)"
  by (induction d) auto

lemma list_all_dict_set:
  "list_all P d \<Longrightarrow> P (k, v) \<Longrightarrow> list_all P (dict_set k v d)"
  using set_dict_set [of k v d] by (auto simp: list_all_iff)

lemma counts_ok_single: "1 \<le> c \<Longrightarrow> counts_ok [(s, c)]"
  by (simp add: counts_ok_def dict_ok_def)

lemma counts_ok_dict_set: "counts_ok d \<Longrightarrow> 1 \<le> c \<Longrightarrow> counts_ok (dict_set s c d)"
  by (simp add: counts_ok_def dict_ok_dict_set list_all_dict_set)

lemma graph_ok_dict_set: "graph_ok g \<Longrightarrow> counts_ok d \<Longrightarrow> graph_ok (dict_set k d g)"
  by (simp add: graph_ok_def dict_ok_dict_set list_all_dict_set)

lemma counts_ok_positive: "counts_ok d \<Longrightarrow> map_of d s = Some c \<Longrightarrow> 1 \<le> c"
  by (auto simp: counts_ok_def list_all_iff dest: map_of_SomeD)

lemma graph_ok_positive: "graph_ok g \<Longrightarrow> stored g k s = Some c \<Longrightarrow> 1 \<le> c"
  by (auto simp: stored_def split: option.splits
      dest: graph_ok_lookup counts_ok_positive)

lemma add_ngram_graph_ok:
  assumes "graph_ok (graph self)"
  shows "graph_ok (graph (snd (add_ngram self ngram)))"
proof (cases "fst (add_ngram self ngram)")
  case (Some e)
  then have "snd (add_ngram self ngram) = self"
    by (auto simp: add_ngram_def Let_def split: if_splits option.splits)
  then show ?thesis using assms by simp
next
  case None
  then obtain source where src: "str_join (butlast ngram) = Some source"
    and h: "hashable (last ngram)" "ngram \<noteq> []" "int (length ngram) = n self"
    by (auto simp: add_ngram_def Let_def split: if_splits option.splits)
  show ?thesis
  proof (cases "map_of (graph self) source")
    case None
    then have "graph (snd (add_ngram self ngram)) =
        dict_set source [(last ngram, 1)] (graph self)"
      using src h by (simp add: add_ngram_def)
    then show ?thesis
      using graph_ok_dict_set [OF assms counts_ok_single [of 1 "last ngram"]] by simp
  next
    case (Some suffixes)
    note suffixes = graph_ok_lookup [OF assms Some]
    show ?thesis
    proof (cases "map_of suffixes (last ngram)")
      case None
      then have "graph (snd (add_ngram self ngram)) =
          dict_set source (dict_set (last ngram) 1 suffixes) (graph self)"
        using src h Some by (simp add: add_ngram_def)
      then show ?thesis
        using graph_ok_dict_set [OF assms counts_ok_dict_set [OF suffixes, of 1 "last ngram"]]
        by simp
    next
      case (Some c)
      then have "graph (snd (add_ngram self ngram)) =
          dict_set source (dict_set (last ngram) (c + 1) suffixes) (graph self)"
        using src h \<open>map_of (graph self) source = Some suffixes\<close>
        by (simp add: add_ngram_def)
      moreover have "1 \<le> c + 1"
        using counts_ok_positive [OF suffixes Some] by simp
      ultimately show ?thesis
        using graph_ok_dict_set [OF assms counts_ok_dict_set [OF suffixes, of "c + 1" "last ngram"]]
        by simp
    qed
  qed
qed

lemma add_ngram_n: "n (snd (add_ngram self ngram)) = n self"
  by (auto simp: add_ngram_def Let_def split: option.splits)

lemma add_ngram_keeps:
  assumes "stored (graph self) k s = Some c"
  shows "\<exists>c'. stored (graph (snd (add_ngram self ngram))) k s = Some c' \<and> c \<le> c'"
  using assms
  by (auto simp: add_ngram_def Let_def stored_dict_set update_conv' stored_def
      split: option.splits)

section \<open>Merge\<close>

lemma update_suffixes_map_of:
  "distinct (map fst items) \<Longrightarrow>
   map_of (update_suffixes mine items) s =
     (case map_of items s of
        None \<Rightarrow> map_of mine s
      | Some w \<Rightarrow> Some (case map_of mine s of None \<Rightarrow> w | Some c \<Rightarrow> c + w))"
proof (induction items arbitrary: mine)
  case Nil
  then show ?case by simp
next
  case (Cons x items)
  obtain s0 w0 where x: "x = (s0, w0)" by (cases x)
  from Cons.prems x have fresh: "map_of items s0 = None" and d: "distinct (map fst items)"
    by (simp_all add: map_of_eq_None_iff)
  have upd: "map_of (dict_set s0 v mine) s' = (if s' = s0 then Some v else map_of mine s')"
    for v s'
    by (simp add: update_conv')
  show ?case
  proof (cases "map_of mine s0")
    case None
    then show ?thesis
      using Cons.IH [OF d, of "dict_set s0 w0 mine"] x fresh
      by (cases "s = s0") (simp_all add: upd split: option.splits)
  next
    case (Some c)
    then show ?thesis
      using Cons.IH [OF d, of "dict_set s0 (c + w0) mine"] x fresh
      by (cases "s = s0") (simp_all add: upd split: option.splits)
  qed
qed

lemma update_loop_stored:
  "distinct (map fst items) \<Longrightarrow> list_all (\<lambda>(k, d). distinct (map fst d)) items \<Longrightarrow>
   stored (update_loop g items) k s =
     (case stored items k s of
        None \<Rightarrow> stored g k s
      | Some w \<Rightarrow> Some (case stored g k s of None \<Rightarrow> w | Some c \<Rightarrow> c + w))"
proof (induction items arbitrary: g)
  case Nil
  then show ?case by (simp add: stored_def)
next
  case (Cons x items)
  obtain k0 d0 where x: "x = (k0, d0)" by (cases x)
  from Cons.prems x have fresh: "map_of items k0 = None" and d: "distinct (map fst items)"
    and d0: "distinct (map fst d0)" and ds: "list_all (\<lambda>(k, d). distinct (map fst d)) items"
    by (simp_all add: map_of_eq_None_iff)
  have fresh': "stored items k0 s = None"
    using fresh by (simp add: stored_def)
  have head: "stored (x # items) k s = (if k = k0 then map_of d0 s else stored items k s)"
    using x by (simp add: stored_def)
  show ?case
  proof (cases "map_of g k0")
    case None
    then have g: "stored g k0 s = None" by (simp add: stored_def)
    show ?thesis
      using Cons.IH [OF d ds, of "dict_set k0 d0 g"] x None fresh' g head
      by (cases "k = k0") (simp_all add: stored_dict_set split: option.splits)
  next
    case (Some mine)
    then have g: "stored g k0 s = map_of mine s" by (simp add: stored_def)
    show ?thesis
      using Cons.IH [OF d ds, of "dict_set k0 (update_suffixes mine d0) g"] x Some fresh' g head
        update_suffixes_map_of [OF d0, of mine s]
      by (cases "k = k0") (simp_all add: stored_dict_set split: option.splits)
  qed
qed

lemma graph_ok_distinct:
  "graph_ok g \<Longrightarrow> distinct (map fst g) \<and> list_all (\<lambda>(k, d). distinct (map fst d)) g"
  by (auto simp: graph_ok_def counts_ok_def dict_ok_def list_all_iff)

lemma update_stored:
  assumes "graph_ok (graph other)"
  shows "stored (graph (snd (update self other))) k s =
     (if n self \<noteq> n other then stored (graph self) k s
      else case stored (graph other) k s of
        None \<Rightarrow> stored (graph self) k s
      | Some w \<Rightarrow> Some (case stored (graph self) k s of None \<Rightarrow> w | Some c \<Rightarrow> c + w))"
  using graph_ok_distinct [OF assms] update_loop_stored [of "graph other" "graph self" k s]
  by (simp add: update_def)

lemma update_count_of:
  assumes "graph_ok (graph other)" "n self = n other"
  shows "count_of (graph (snd (update self other))) k s =
     count_of (graph self) k s + count_of (graph other) k s"
  using update_stored [OF assms(1), of self k s] assms(2)
  by (simp add: count_of_def split: option.splits)

lemma update_n: "n (snd (update self other)) = n self"
  by (simp add: update_def)

lemma update_keeps:
  assumes "graph_ok (graph other)" "stored (graph self) k s = Some c"
  shows "\<exists>c'. stored (graph (snd (update self other))) k s = Some c' \<and> c \<le> c'"
proof (cases "stored (graph other) k s")
  case None
  then show ?thesis using update_stored [OF assms(1), of self k s] assms(2) by simp
next
  case (Some w)
  then have "1 \<le> w" using graph_ok_positive [OF assms(1)] by blast
  then show ?thesis using update_stored [OF assms(1), of self k s] assms(2) Some by simp
qed

lemma update_suffixes_counts_ok:
  "counts_ok mine \<Longrightarrow> list_all (\<lambda>(s, c). 1 \<le> c) items \<Longrightarrow>
   counts_ok (update_suffixes mine items)"
proof (induction items arbitrary: mine)
  case Nil
  then show ?case by simp
next
  case (Cons x items)
  obtain s0 w0 where x: "x = (s0, w0)" by (cases x)
  from Cons.prems(2) x have w0: "1 \<le> w0" and rest: "list_all (\<lambda>(s, c). 1 \<le> c) items"
    by simp_all
  show ?case
  proof (cases "map_of mine s0")
    case None
    then show ?thesis
      using Cons.IH [OF counts_ok_dict_set [OF Cons.prems(1) w0, of s0] rest] x by simp
  next
    case (Some c)
    then have "1 \<le> c + w0"
      using counts_ok_positive [OF Cons.prems(1) Some] w0 by simp
    then show ?thesis
      using Cons.IH [OF counts_ok_dict_set [OF Cons.prems(1), of "c + w0" s0] rest] x Some
      by simp
  qed
qed

lemma update_loop_graph_ok:
  "graph_ok g \<Longrightarrow> list_all (\<lambda>(k, d). counts_ok d) items \<Longrightarrow> graph_ok (update_loop g items)"
proof (induction items arbitrary: g)
  case Nil
  then show ?case by simp
next
  case (Cons x items)
  obtain k0 d0 where x: "x = (k0, d0)" by (cases x)
  from Cons.prems(2) x have d0: "counts_ok d0" and rest: "list_all (\<lambda>(k, d). counts_ok d) items"
    by simp_all
  show ?case
  proof (cases "map_of g k0")
    case None
    then show ?thesis
      using Cons.IH [OF graph_ok_dict_set [OF Cons.prems(1) d0, of k0] rest] x by simp
  next
    case (Some mine)
    have "list_all (\<lambda>(s, c). 1 \<le> c) d0"
      using d0 by (simp add: counts_ok_def)
    then have "counts_ok (update_suffixes mine d0)"
      using update_suffixes_counts_ok [OF graph_ok_lookup [OF Cons.prems(1) Some]] by simp
    then show ?thesis
      using Cons.IH [OF graph_ok_dict_set [OF Cons.prems(1), of "update_suffixes mine d0" k0] rest]
        x Some by simp
  qed
qed

lemma update_graph_ok:
  assumes "graph_ok (graph self)" "graph_ok (graph other)"
  shows "graph_ok (graph (snd (update self other)))"
proof -
  have "list_all (\<lambda>(k, d). counts_ok d) (graph other)"
    using assms(2) by (simp add: graph_ok_def)
  then show ?thesis
    using update_loop_graph_ok [OF assms(1)] assms(1) by (simp add: update_def)
qed

lemma Markov_init_Inr:
  "Markov_init x = Inr m \<longleftrightarrow> (\<exists>k. x = PyInt k \<and> 2 \<le> k \<and> m = \<lparr>n = k, graph = []\<rparr>)"
  by (cases x) auto

lemma Markov_init_Inl:
  "Markov_init x = Inl e \<longleftrightarrow>
     (if \<exists>k. x = PyInt k then e = ValueError \<and> (\<exists>k. x = PyInt k \<and> k < 2) else e = TypeError)"
  by (cases x) auto

lemma reachable_ok: "reachable m \<Longrightarrow> 2 \<le> n m \<and> graph_ok (graph m)"
proof (induction rule: reachable.induct)
  case (constructed x m)
  then show ?case
    by (auto simp: Markov_init_Inr graph_ok_def dict_ok_def)
next
  case (added m ngram)
  then show ?case by (simp add: add_ngram_n add_ngram_graph_ok)
next
  case (updated m other)
  then show ?case by (simp add: update_n update_graph_ok)
qed

text \<open>
  C3. \<open>update\<close> raises \<open>ValueError\<close>, the \<open>ValueMismatch\<close>, and leaves \<open>self\<close> as it is
  when the two models differ in \<open>n\<close>. When they agree, and the graph of the other
  model is well formed, the call returns normally, and afterwards the count of every
  pair of prefix key and suffix is the sum of the counts that \<open>self\<close> and the other
  model had for it (an absent entry counting 0). A second call with the same
  argument adds the counts of the other model once more, so the result differs from
  that of the first call at every entry of the other model: the merge is not
  idempotent. The statement covers \<open>self.update(self)\<close>, where the loop reads each
  count before it writes it.
\<close>

theorem update_adds_counts:
  "(n self \<noteq> n other \<longrightarrow>
      (\<exists>e. update self other = (Some e, self) \<and> ValueMismatch e)) \<and>
   (n self = n other \<and> graph_ok (graph other) \<longrightarrow>
      (\<exists>m' m''. update self other = (None, m') \<and> update m' other = (None, m'') \<and>
         (\<forall>k s. count_of (graph m') k s =
                  count_of (graph self) k s + count_of (graph other) k s) \<and>
         (\<forall>k s. count_of (graph m'') k s =
                  count_of (graph self) k s + 2 * count_of (graph other) k s) \<and>
         (\<forall>k s. stored (graph other) k s \<noteq> None \<longrightarrow>
                  count_of (graph m'') k s \<noteq> count_of (graph m') k s)))"
proof (intro conjI impI)
  assume "n self \<noteq> n other"
  then show "\<exists>e. update self other = (Some e, self) \<and> ValueMismatch e"
    by (simp add: update_def ValueMismatch_def)
next
  assume a: "n self = n other \<and> graph_ok (graph other)"
  then have eq: "n self = n other" and ok: "graph_ok (graph other)" by simp_all
  define m' where "m' = snd (update self other)"
  define m'' where "m'' = snd (update m' other)"
  have n': "n m' = n other"
    using eq by (simp add: m'_def update_n)
  have 1: "update self other = (None, m')"
    using eq by (simp add: m'_def update_def)
  have 2: "update m' other = (None, m'')"
    using n' by (simp add: m''_def update_def)
  have 3: "count_of (graph m') k s = count_of (graph self) k s + count_of (graph other) k s"
    for k s
    unfolding m'_def by (rule update_count_of [OF ok eq])
  have 4: "count_of (graph m'') k s = count_of (graph m') k s + count_of (graph other) k s"
    for k s
    unfolding m''_def by (rule update_count_of [OF ok n'])
  have 5: "count_of (graph m'') k s \<noteq> count_of (graph m') k s"
    if "stored (graph other) k s \<noteq> None" for k s
  proof -
    from that obtain w where w: "stored (graph other) k s = Some w" by auto
    then have "1 \<le> w" using graph_ok_positive [OF ok] by blast
    then show ?thesis using 4 [of k s] w by (simp add: count_of_def)
  qed
  show "\<exists>m' m''. update self other = (None, m') \<and> update m' other = (None, m'') \<and>
         (\<forall>k s. count_of (graph m') k s =
                  count_of (graph self) k s + count_of (graph other) k s) \<and>
         (\<forall>k s. count_of (graph m'') k s =
                  count_of (graph self) k s + 2 * count_of (graph other) k s) \<and>
         (\<forall>k s. stored (graph other) k s \<noteq> None \<longrightarrow>
                  count_of (graph m'') k s \<noteq> count_of (graph m') k s)"
    using 1 2 3 4 5 by (intro exI [of _ m'] exI [of _ m''] conjI allI impI) simp_all
qed

theorem update_adds_counts_witness:
  "n \<lparr>n = 2, graph = [(''the'', [(Str ''cat'', 1)])]\<rparr> \<noteq> n \<lparr>n = 3, graph = []\<rparr> \<and>
   update \<lparr>n = 2, graph = [(''the'', [(Str ''cat'', 1)])]\<rparr> \<lparr>n = 3, graph = []\<rparr> =
     (Some ValueError, \<lparr>n = 2, graph = [(''the'', [(Str ''cat'', 1)])]\<rparr>) \<and>
   ValueMismatch ValueError \<and>
   n \<lparr>n = 2, graph = [(''the'', [(Str ''cat'', 1)])]\<rparr> =
     n \<lparr>n = 2, graph = [(''the'', [(Str ''cat'', 3), (Str ''dog'', 2)]), (''a'', [(Str ''b'', 1)])]\<rparr> \<and>
   graph_ok (graph \<lparr>n = 2, graph = [(''the'', [(Str ''cat'', 3), (Str ''dog'', 2)]), (''a'', [(Str ''b'', 1)])]\<rparr>) \<and>
   update \<lparr>n = 2, graph = [(''the'', [(Str ''cat'', 1)])]\<rparr>
     \<lparr>n = 2, graph = [(''the'', [(Str ''cat'', 3), (Str ''dog'', 2)]), (''a'', [(Str ''b'', 1)])]\<rparr> =
     (None, \<lparr>n = 2, graph = [(''the'', [(Str ''cat'', 4), (Str ''dog'', 2)]), (''a'', [(Str ''b'', 1)])]\<rparr>) \<and>
   (\<exists>m' m''.
      update \<lparr>n = 2, graph = [(''the'', [(Str ''cat'', 1)])]\<rparr>
        \<lparr>n = 2, graph = [(''the'', [(Str ''cat'', 3), (Str ''dog'', 2)]), (''a'', [(Str ''b'', 1)])]\<rparr> =
        (None, m') \<and>
      update m'
        \<lparr>n = 2, graph = [(''the'', [(Str ''cat'', 3), (Str ''dog'', 2)]), (''a'', [(Str ''b'', 1)])]\<rparr> =
        (None, m'') \<and>
      count_of (graph m') ''the'' (Str ''cat'') = 4 \<and>
      count_of (graph m'') ''the'' (Str ''cat'') = 7)"
  using update_adds_counts [of "\<lparr>n = 2, graph = [(''the'', [(Str ''cat'', 1)])]\<rparr>"
      "\<lparr>n = 3, graph = []\<rparr>"]
    update_adds_counts [of "\<lparr>n = 2, graph = [(''the'', [(Str ''cat'', 1)])]\<rparr>"
      "\<lparr>n = 2, graph = [(''the'', [(Str ''cat'', 3), (Str ''dog'', 2)]), (''a'', [(Str ''b'', 1)])]\<rparr>"]
  by (simp add: update_def ValueMismatch_def graph_ok_def counts_ok_def dict_ok_def
      count_of_def stored_def)

section \<open>The graph invariant and colliding prefix keys\<close>

text \<open>
  C8. Construction returns a model with an empty graph when its argument is an
  \<open>int\<close> of at least 2, and raises \<open>TypeError\<close> or \<open>ValueError\<close>, an \<open>InvalidArgument\<close>,
  otherwise. In every model reached from construction by calls of \<open>add_ngram\<close> and
  \<open>update\<close> (with reachable arguments), \<open>n\<close> is at least 2, the graph is well formed
  and every count stored is at least 1; and an entry stored in such a model is still
  stored, with a count that is not smaller, after a further call of \<open>add_ngram\<close> or
  \<open>update\<close>.
\<close>

theorem graph_invariant:
  "(case Markov_init x of
      Inl e \<Rightarrow> InvalidArgument e \<and> \<not> (\<exists>k. x = PyInt k \<and> 2 \<le> k)
    | Inr m0 \<Rightarrow> (\<exists>k. x = PyInt k \<and> 2 \<le> k \<and> n m0 = k) \<and> graph m0 = []) \<and>
   (reachable m \<longrightarrow>
      2 \<le> n m \<and> graph_ok (graph m) \<and>
      (\<forall>k s c. stored (graph m) k s = Some c \<longrightarrow> 1 \<le> c) \<and>
      (\<forall>ngram k s c. stored (graph m) k s = Some c \<longrightarrow>
         (\<exists>c'. stored (graph (snd (add_ngram m ngram))) k s = Some c' \<and> c \<le> c')) \<and>
      (\<forall>other k s c. reachable other \<and> stored (graph m) k s = Some c \<longrightarrow>
         (\<exists>c'. stored (graph (snd (update m other))) k s = Some c' \<and> c \<le> c')))"
proof (intro conjI impI allI)
  show "case Markov_init x of
      Inl e \<Rightarrow> InvalidArgument e \<and> \<not> (\<exists>k. x = PyInt k \<and> 2 \<le> k)
    | Inr m0 \<Rightarrow> (\<exists>k. x = PyInt k \<and> 2 \<le> k \<and> n m0 = k) \<and> graph m0 = []"
    by (cases x) (simp_all add: InvalidArgument_def)
next
  assume "reachable m"
  then show "2 \<le> n m" "graph_ok (graph m)"
    using reachable_ok by simp_all
next
  fix k s c
  assume "reachable m" "stored (graph m) k s = Some c"
  then show "1 \<le> c"
    using reachable_ok [of m] graph_ok_positive [of "graph m" k s c] by simp
next
  fix ngram k s c
  assume "reachable m" "stored (graph m) k s = Some c"
  then show "\<exists>c'. stored (graph (snd (add_ngram m ngram))) k s = Some c' \<and> c \<le> c'"
    by (intro add_ngram_keeps)
next
  fix other k s c
  assume "reachable m" "reachable other \<and> stored (graph m) k s = Some c"
  then show "\<exists>c'. stored (graph (snd (update m other))) k s = Some c' \<and> c \<le> c'"
    using reachable_ok [of other] by (intro update_keeps) simp_all
qed

theorem graph_invariant_witness:
  "Markov_init (PyInt 2) = Inr \<lparr>n = 2, graph = []\<rparr> \<and>
   Markov_init (PyInt 1) = Inl ValueError \<and>
   Markov_init (Str ''2'') = Inl TypeError \<and>
   reachable \<lparr>n = 2, graph = [(''the'', [(Str ''cat'', 1)])]\<rparr> \<and>
   stored (graph \<lparr>n = 2, graph = [(''the'', [(Str ''cat'', 1)])]\<rparr>) ''the'' (Str ''cat'') = Some 1 \<and>
   stored (graph (snd (add_ngram \<lparr>n = 2, graph = [(''the'', [(Str ''cat'', 1)])]\<rparr>
      [Str ''the'', Str ''cat'']))) ''the'' (Str ''cat'') = Some 2 \<and>
   stored (graph (snd (update \<lparr>n = 2, graph = [(''the'', [(Str ''cat'', 1)])]\<rparr>
      \<lparr>n = 2, graph = [(''the'', [(Str ''cat'', 1)])]\<rparr>))) ''the'' (Str ''cat'') = Some 2 \<and>
   (\<exists>c'. stored (graph (snd (add_ngram \<lparr>n = 2, graph = [(''the'', [(Str ''cat'', 1)])]\<rparr>
      [Str ''a'', Str ''b'']))) ''the'' (Str ''cat'') = Some c' \<and> 1 \<le> c')"
proof -
  have r0: "reachable \<lparr>n = 2, graph = []\<rparr>"
    by (rule reachable.constructed [of "PyInt 2"]) simp
  have r1: "reachable \<lparr>n = 2, graph = [(''the'', [(Str ''cat'', 1)])]\<rparr>"
    using reachable.added [OF r0, of "[Str ''the'', Str ''cat'']"]
    by (simp add: add_ngram_def)
  have s: "stored (graph \<lparr>n = 2, graph = [(''the'', [(Str ''cat'', 1)])]\<rparr>) ''the'' (Str ''cat'') =
      Some 1"
    by (simp add: stored_def)
  have "\<exists>c'. stored (graph (snd (add_ngram \<lparr>n = 2, graph = [(''the'', [(Str ''cat'', 1)])]\<rparr>
      [Str ''a'', Str ''b'']))) ''the'' (Str ''cat'') = Some c' \<and> 1 \<le> c'"
    using graph_invariant [of "PyInt 2" "\<lparr>n = 2, graph = [(''the'', [(Str ''cat'', 1)])]\<rparr>"] r1 s
    by blast
  then show ?thesis
    using r1 by (simp add: stored_def add_ngram_def update_def)
qed

lemma get_suffixes_key:
  assumes "int (length prefix) = n self - 1" "str_join prefix = Some key"
  shows "get_suffixes self prefix =
     (case map_of (graph self) key of
        None \<Rightarrow> Inr []
      | Some suffixes \<Rightarrow> get_suffixes_loop (sum_list (map snd suffixes)) suffixes [])"
  using assms by (simp add: get_suffixes_def)

lemma list_all2_keys:
  "list_all2 (\<lambda>(s, c) (s', p). s' = s \<and> Q c p) xs ys \<Longrightarrow> map fst ys = map fst xs"
  by (induction xs ys rule: list_all2_induct) auto

text \<open>
  C4. In a model with a well-formed graph, let two prefixes of \<open>n - 1\<close> strings join
  to the same key. Then \<open>add_ngram\<close> with the first prefix and a hashable last token
  writes the entry that \<open>get_suffixes\<close> with the second prefix reads: after the call,
  \<open>get_suffixes\<close> returns the same mapping for both prefixes, the mapping has the
  ingested token among its keys, and its values are the counts recorded under the
  shared key, each divided by their sum.
\<close>

theorem prefix_keys_collide:
  assumes "graph_ok (graph self)"
    "int (length prefix1) = n self - 1" "int (length prefix2) = n self - 1"
    "str_join prefix1 = Some key" "str_join prefix2 = Some key" "hashable destination"
  shows "\<exists>m' suffixes mapping.
     add_ngram self (prefix1 @ [destination]) = (None, m') \<and>
     map_of (graph m') key = Some suffixes \<and>
     get_suffixes m' prefix2 = Inr mapping \<and> get_suffixes m' prefix1 = Inr mapping \<and>
     destination \<in> fst ` set mapping \<and>
     list_all2 (\<lambda>(s, c) (s', p). s' = s \<and> truediv c (sum_list (map snd suffixes)) = Inr p)
       suffixes mapping"
proof -
  obtain m' where m': "add_ngram self (prefix1 @ [destination]) = (None, m')"
    and n': "n m' = n self"
    and st: "stored (graph m') key destination \<noteq> None"
    using add_ngram_stored [of "prefix1 @ [destination]" self key] assms(2,4,6) by auto
  then obtain suffixes where suffixes: "map_of (graph m') key = Some suffixes"
    and d: "map_of suffixes destination \<noteq> None"
    by (auto simp: stored_def split: option.splits)
  have "graph_ok (graph m')"
    using add_ngram_graph_ok [OF assms(1), of "prefix1 @ [destination]"] m' by simp
  then have ok: "counts_ok suffixes"
    using suffixes by (rule graph_ok_lookup)
  obtain mapping where mapping: "get_suffixes m' prefix2 = Inr mapping"
    and l: "list_all2 (\<lambda>(s, c) (s', p). s' = s \<and> truediv c (sum_list (map snd suffixes)) = Inr p)
       suffixes mapping"
    using get_suffixes_seen [OF ok _ assms(5) suffixes] assms(3) n' by auto
  have "get_suffixes m' prefix1 = get_suffixes m' prefix2"
    using get_suffixes_key [of prefix1 m' key] get_suffixes_key [of prefix2 m' key] assms(2-5) n'
    by simp
  moreover have "destination \<in> fst ` set mapping"
  proof -
    have "destination \<in> fst ` set suffixes"
      using d by (simp add: map_of_eq_None_iff)
    then show ?thesis
      using list_all2_keys [OF l] by (metis set_map)
  qed
  ultimately show ?thesis
    using m' suffixes mapping l by (intro exI [of _ m'] exI [of _ suffixes] exI [of _ mapping]) simp
qed

theorem prefix_keys_collide_witness:
  "graph_ok (graph \<lparr>n = 3, graph = [(''abc'', [(Str ''x'', 1)])]\<rparr>) \<and>
   int (length [Str ''a'', Str ''bc'']) = n \<lparr>n = 3, graph = [(''abc'', [(Str ''x'', 1)])]\<rparr> - 1 \<and>
   int (length [Str ''ab'', Str ''c'']) = n \<lparr>n = 3, graph = [(''abc'', [(Str ''x'', 1)])]\<rparr> - 1 \<and>
   str_join [Str ''a'', Str ''bc''] = Some ''abc'' \<and> str_join [Str ''ab'', Str ''c''] = Some ''abc'' \<and>
   hashable (Str ''y'') \<and>
   (\<exists>m' mapping.
      add_ngram \<lparr>n = 3, graph = [(''abc'', [(Str ''x'', 1)])]\<rparr> [Str ''a'', Str ''bc'', Str ''y''] =
        (None, m') \<and>
      get_suffixes m' [Str ''ab'', Str ''c''] = Inr mapping \<and> Str ''y'' \<in> fst ` set mapping) \<and>
   get_suffixes (snd (add_ngram \<lparr>n = 3, graph = [(''abc'', [(Str ''x'', 1)])]\<rparr>
       [Str ''a'', Str ''bc'', Str ''y''])) [Str ''ab'', Str ''c''] =
     Inr [(Str ''x'', Finite 4503599627370496 (- 53)), (Str ''y'', Finite 4503599627370496 (- 53))]"
proof -
  have ok: "graph_ok (graph \<lparr>n = 3, graph = [(''abc'', [(Str ''x'', 1)])]\<rparr>)"
    by (simp add: graph_ok_def counts_ok_def dict_ok_def)
  have "\<exists>m' mapping.
      add_ngram \<lparr>n = 3, graph = [(''abc'', [(Str ''x'', 1)])]\<rparr> ([Str ''a'', Str ''bc''] @ [Str ''y'']) =
        (None, m') \<and>
      get_suffixes m' [Str ''ab'', Str ''c''] = Inr mapping \<and> Str ''y'' \<in> fst ` set mapping"
    using prefix_keys_collide [OF ok, of "[Str ''a'', Str ''bc'']" "[Str ''ab'', Str ''c'']"
        "''abc''" "Str ''y''"]
    by (simp del: append.simps) blast
  then show ?thesis
    using ok by (simp add: add_ngram_def get_suffixes_def float_eval)
qed

end
